theory Spec2Isabelle
  imports Main "HOL-Library.Word"
begin

unbundle bit_operations_syntax

section \<open>lib/rwsem.c: contention handling of the reader/writer semaphore\<close>

subsection \<open>Data\<close>

text \<open>
  The counter \<open>sem->count\<close> is a \<open>signed long\<close>; the msm7x25 is a 32-bit ARM, so
  it is a 32-bit word and \<open>+\<close>, \<open>-\<close>, \<open>*\<close> wrap as the machine's do.
\<close>

type_synonym long = "32 word"

text \<open>
  \<open>RWSEM_ACTIVE_BIAS\<close>, \<open>RWSEM_WAITING_BIAS\<close>, \<open>RWSEM_ACTIVE_MASK\<close> and
  \<open>RWSEM_ACTIVE_WRITE_BIAS\<close> are macros of the architecture's \<open>rwsem.h\<close>, which is
  not part of \<open>lib/rwsem.c\<close>. Every function below takes them as a parameter, so
  each result holds whatever values the header gives them.
\<close>

record rwsem_bias =
  RWSEM_ACTIVE_BIAS :: long
  RWSEM_WAITING_BIAS :: long
  RWSEM_ACTIVE_MASK :: long
  RWSEM_ACTIVE_WRITE_BIAS :: long

text \<open>Lines 37-38.\<close>

definition RWSEM_WAITING_FOR_READ :: "32 word" where
  "RWSEM_WAITING_FOR_READ = 1"

definition RWSEM_WAITING_FOR_WRITE :: "32 word" where
  "RWSEM_WAITING_FOR_WRITE = 2"

text \<open>
  \<open>struct rwsem_waiter\<close> (lines 33-39). A task is named by a number and
  \<open>None\<close> is the \<open>NULL\<close> task pointer. The \<open>list\<close> member is the waiter's
  linkage into \<open>sem->wait_list\<close>; it is represented by the waiter's position in
  the queue below.
\<close>

record rwsem_waiter =
  task :: "nat option"
  flags :: "32 word"

datatype task_state = TASK_RUNNING | TASK_UNINTERRUPTIBLE

text \<open>
  The calls into the rest of the kernel, in the order in which a function makes
  them, and the two kinds of atomic operation on the counter with their operand.
  A store to \<open>tsk->state\<close> (lines 142 and 196) is recorded like a call of
  \<open>set_task_state\<close>.
\<close>

datatype event =
    Wake_up_process nat
  | Put_task_struct nat
  | Get_task_struct nat
  | Set_task_state nat task_state
  | Smp_mb
  | Atomic_add long
  | Atomic_update long
  | Spin_lock
  | Spin_unlock
  | Schedule

text \<open>
  Modelled from the spec: \<open>struct list_head\<close> and its primitives
  (\<open>list_entry\<close>, \<open>list_add_tail\<close>, \<open>list_del\<close>, \<open>list_empty\<close>) belong to
  \<open>linux/list.h\<close>, which is not part of \<open>lib/rwsem.c\<close>. After the spec's sections
  3 and 4.2, \<open>wait_list\<close> is the ordered sequence of the queued waiters, arrival
  order first; enqueueing appends to its tail and removing a waiter takes that
  waiter out. So \<open>sem->wait_list.next\<close> is the first entry, \<open>w->list.next\<close> of a
  queued waiter is the entry after \<open>w\<close>, and a \<open>next\<close> that equals
  \<open>&sem->wait_list\<close> is the end of the sequence. A cursor \<open>struct list_head *\<close>
  into the queue is the part of the sequence from the cursor on.

  The state is the semaphore and the memory around it. A
  \<open>struct rwsem_waiter *\<close> is an address; \<open>waiters\<close> maps the addresses that hold
  a waiter to its fields.

  \<open>cpus\<close> is what the other processors do to \<open>count\<close> meanwhile: the counter is
  changed by their fast paths without \<open>wait_lock\<close>. Its first entry is added to
  the counter before this processor's next atomic operation, the second before
  the one after, and so on; once it is empty nobody else touches the counter.
  \<open>events\<close> records the calls this processor has made.
\<close>

record kstate =
  count :: long
  wait_list :: "nat list"
  waiters :: "nat \<rightharpoonup> rwsem_waiter"
  cpus :: "long list"
  events :: "event list"

text \<open>
  What the kernel does on a pointer that the model cannot follow: a
  \<open>struct rwsem_waiter *\<close> that holds no waiter (also \<open>list_entry\<close> of the list
  head itself), a \<open>NULL\<close> task handed to the scheduler, and \<open>list_del\<close> of an
  entry that is on no list.
\<close>

datatype fault = Wild_pointer | Null_task | Not_linked

definition emit :: "event \<Rightarrow> kstate \<Rightarrow> kstate" where
  "emit e s = s\<lparr>events := events s @ [e]\<rparr>"

subsection \<open>The atomic operations on the counter\<close>

text \<open>
  \<open>rwsem_atomic_update\<close> and \<open>rwsem_atomic_add\<close> are inline functions of the same
  header and are not part of \<open>lib/rwsem.c\<close> either. What they return is fixed
  by their use in the file: \<open>rwsem_atomic_update(delta, sem)\<close> adds \<open>delta\<close> and
  returns the sum, since line 134 subtracts the operand from the result to get
  \<open>oldcount\<close>, and lines 146 and 171-174 test the returned value as the count
  after the addition. (The spec's section 4.1 words it as returning the value
  before the addition; sections 4.4 and 4.5 use it as the file does.) The result
  of \<open>rwsem_atomic_add\<close> is not used.
\<close>

definition interfere :: "kstate \<Rightarrow> kstate" where
  "interfere s =
     (case cpus s of
        [] \<Rightarrow> s
      | d # ds \<Rightarrow> s\<lparr>count := count s + d, cpus := ds\<rparr>)"

definition rwsem_atomic_update :: "long \<Rightarrow> kstate \<Rightarrow> long \<times> kstate" where
  "rwsem_atomic_update delta s =
     (let s1 = interfere s;
          c = count s1 + delta
      in (c, emit (Atomic_update delta) (s1\<lparr>count := c\<rparr>)))"

definition rwsem_atomic_add :: "long \<Rightarrow> kstate \<Rightarrow> kstate" where
  "rwsem_atomic_add delta s =
     (let s1 = interfere s
      in emit (Atomic_add delta) (s1\<lparr>count := count s1 + delta\<rparr>))"

subsection \<open>\<open>__rwsem_do_wake\<close> (lines 51-114)\<close>

text \<open>
  The \<open>do ... while\<close> of lines 79-88. It is entered with \<open>waiter\<close> at a queued
  entry; \<open>rest\<close> is the queue after that entry and \<open>woken\<close> the count so far.
  \<open>woken\<close> is a \<open>signed long\<close> that counts queue entries; it is a natural number
  here and is converted where line 91 multiplies it.
\<close>

fun readers_only_scan :: "(nat \<rightharpoonup> rwsem_waiter) \<Rightarrow> nat list \<Rightarrow> nat \<Rightarrow> fault + nat" where
  "readers_only_scan ws [] woken = Inr (woken + 1)"
| "readers_only_scan ws (w # rest) woken =
     (case ws w of
        None \<Rightarrow> Inl Wild_pointer
      | Some r \<Rightarrow>
          if flags r AND RWSEM_WAITING_FOR_READ \<noteq> 0
          then readers_only_scan ws rest (woken + 1)
          else Inr (woken + 1))"

text \<open>
  The \<open>for\<close> loop of lines 99-107: \<open>loop\<close> times, take the entry at \<open>next\<close>,
  step \<open>next\<close> past it, clear its \<open>task\<close> and wake the task. The queue itself is
  not written here; the function returns the final \<open>next\<close>.
\<close>

fun wake_loop :: "nat \<Rightarrow> nat list \<Rightarrow> kstate \<Rightarrow> fault + (nat list \<times> kstate)" where
  "wake_loop 0 nxt s = Inr (nxt, s)"
| "wake_loop (Suc loop) [] s = Inl Wild_pointer"
| "wake_loop (Suc loop) (w # nxt) s =
     (case waiters s w of
        None \<Rightarrow> Inl Wild_pointer
      | Some r \<Rightarrow>
          (case task r of
             None \<Rightarrow> Inl Null_task
           | Some tsk \<Rightarrow>
               wake_loop loop nxt
                 (emit (Put_task_struct tsk)
                   (emit (Wake_up_process tsk)
                     ((emit Smp_mb s)\<lparr>waiters := (waiters s)(w \<mapsto> r\<lparr>task := None\<rparr>)\<rparr>)))))"

text \<open>
  Lines 77-107 from the label \<open>readers_only\<close>, entered with \<open>waiter\<close> at the queue
  head and \<open>rest\<close> the queue after the head: the scan, the one addition to the
  counter and the loop. The result is the state on reaching line 109, with the
  final \<open>next\<close>.
\<close>

definition readers_only_batch ::
    "rwsem_bias \<Rightarrow> nat list \<Rightarrow> kstate \<Rightarrow> bool \<Rightarrow> fault + (nat list \<times> kstate)" where
  "readers_only_batch K rest s downgrading =
     (case readers_only_scan (waiters s) rest 0 of
        Inl e \<Rightarrow> Inl e
      | Inr n \<Rightarrow>
          (let woken = of_nat n * (RWSEM_ACTIVE_BIAS K - RWSEM_WAITING_BIAS K);
               woken = (if \<not> downgrading then woken - RWSEM_ACTIVE_BIAS K else woken);
               s1 = rwsem_atomic_add woken s
           in wake_loop n (wait_list s1) s1))"

text \<open>
  Lines 77-110: the batch, then the two stores of lines 109-110 that make \<open>next\<close>
  the first entry of the queue.
\<close>

definition readers_only :: "rwsem_bias \<Rightarrow> nat list \<Rightarrow> kstate \<Rightarrow> bool \<Rightarrow> fault + kstate" where
  "readers_only K rest s downgrading =
     (case readers_only_batch K rest s downgrading of
        Inl e \<Rightarrow> Inl e
      | Inr (nxt, s2) \<Rightarrow> Inr (s2\<lparr>wait_list := nxt\<rparr>))"

text \<open>
  \<open>__rwsem_do_wake(sem, downgrading)\<close>. The local \<open>waiter\<close> is declared at line 54
  without a value and line 63 reads \<open>waiter->task\<close> before anything is stored in
  it; \<open>waiter0\<close> is the address the local happens to hold on entry. With
  \<open>downgrading\<close> zero the function wakes that task and returns (lines 59-64);
  otherwise it reads the queue head (line 68), returns if the head waits for
  write (lines 69-70), and falls into \<open>readers_only\<close>. \<open>downgrading\<close> is an
  \<open>int\<close> that is only tested for zero: \<open>True\<close> is any value but zero.
\<close>

definition rwsem_do_wake :: "rwsem_bias \<Rightarrow> nat \<Rightarrow> kstate \<Rightarrow> bool \<Rightarrow> fault + kstate" where
  "rwsem_do_wake K waiter0 s downgrading =
     (if \<not> downgrading then
        (case waiters s waiter0 of
           None \<Rightarrow> Inl Wild_pointer
         | Some r \<Rightarrow>
             (case task r of
                None \<Rightarrow> Inl Null_task
              | Some tsk \<Rightarrow> Inr (emit (Wake_up_process tsk) s)))
      else
        (case wait_list s of
           [] \<Rightarrow> Inl Wild_pointer
         | w # rest \<Rightarrow>
             (case waiters s w of
                None \<Rightarrow> Inl Wild_pointer
              | Some r \<Rightarrow>
                  if flags r AND RWSEM_WAITING_FOR_WRITE \<noteq> 0 then Inr s
                  else readers_only K rest s downgrading)))"

subsection \<open>\<open>try_get_writer_sem\<close> (lines 116-149)\<close>

text \<open>
  Lines 136-143, the branch taken when nobody held the lock: read
  \<open>waiter->task\<close>, \<open>list_del\<close> the waiter, drop the reference to the task, store
  \<open>TASK_RUNNING\<close> in its state, return 1. Nothing is stored in \<open>waiter->task\<close>.
\<close>

definition steal_granted :: "nat \<Rightarrow> kstate \<Rightarrow> fault + (int \<times> kstate)" where
  "steal_granted waiter s =
     (case waiters s waiter of
        None \<Rightarrow> Inl Wild_pointer
      | Some r \<Rightarrow>
          if waiter \<notin> set (wait_list s) then Inl Not_linked
          else
            (case task r of
               None \<Rightarrow> Inl Null_task
             | Some tsk \<Rightarrow>
                 Inr (1, emit (Set_task_state tsk TASK_RUNNING)
                          (emit (Put_task_struct tsk)
                            (emit Smp_mb
                              (s\<lparr>wait_list := remove1 waiter (wait_list s)\<rparr>))))))"

text \<open>
  The loop from the label \<open>try_again_write\<close> (lines 133-148), with the
  \<open>adjustment\<close> computed before it.
\<close>

function try_again_write :: "rwsem_bias \<Rightarrow> long \<Rightarrow> nat \<Rightarrow> kstate \<Rightarrow> fault + (int \<times> kstate)" where
  "try_again_write K adjustment waiter s =
     (let oldcount = fst (rwsem_atomic_update adjustment s) - adjustment;
          s1 = snd (rwsem_atomic_update adjustment s)
      in if oldcount AND RWSEM_ACTIVE_MASK K = 0 then steal_granted waiter s1
         else
           if fst (rwsem_atomic_update (- adjustment) s1) AND RWSEM_ACTIVE_MASK K \<noteq> 0
           then Inr (0, snd (rwsem_atomic_update (- adjustment) s1))
           else try_again_write K adjustment waiter (snd (rwsem_atomic_update (- adjustment) s1)))"
  by pat_completeness auto
termination
proof (relation "measure (\<lambda>(K, adjustment, waiter, s). length (cpus s))")
  show "wf (measure (\<lambda>(K, adjustment, waiter, s). length (cpus s)))"
    by simp
next
  fix K :: rwsem_bias and adjustment :: long and waiter :: nat and s :: kstate
    and oldcount :: long and s1 :: kstate
  assume old: "oldcount = fst (rwsem_atomic_update adjustment s) - adjustment"
    and s1: "s1 = snd (rwsem_atomic_update adjustment s)"
    and held: "oldcount AND RWSEM_ACTIVE_MASK K \<noteq> 0"
    and free: "\<not> fst (rwsem_atomic_update (- adjustment) s1) AND RWSEM_ACTIVE_MASK K \<noteq> 0"
  have "cpus s \<noteq> []"
  proof
    assume "cpus s = []"
    then have "fst (rwsem_atomic_update (- adjustment) s1) = oldcount"
      by (simp add: old s1 rwsem_atomic_update_def interfere_def emit_def Let_def)
    with held free show False
      by simp
  qed
  then show "((K, adjustment, waiter, snd (rwsem_atomic_update (- adjustment) s1)),
              (K, adjustment, waiter, s))
             \<in> measure (\<lambda>(K, adjustment, waiter, s). length (cpus s))"
    by (cases "cpus s"; cases "tl (cpus s)")
       (simp_all add: s1 rwsem_atomic_update_def interfere_def emit_def Let_def)
qed

declare try_again_write.simps [simp del]

text \<open>
  Lines 128-131: the adjustment. \<open>fwaiter\<close> is the queue head and \<open>rest\<close> the
  queue after it; \<open>waiter->list.next\<close> is read only if \<open>fwaiter == waiter\<close>, and
  then it is \<open>&sem->wait_list\<close> exactly if nothing follows the head.
\<close>

definition writer_adjustment :: "rwsem_bias \<Rightarrow> nat \<Rightarrow> nat list \<Rightarrow> nat \<Rightarrow> long" where
  "writer_adjustment K fwaiter rest waiter =
     (let adjustment = RWSEM_ACTIVE_WRITE_BIAS K
      in if fwaiter = waiter \<and> rest = [] then adjustment - RWSEM_WAITING_BIAS K
         else adjustment)"

text \<open>\<open>try_get_writer_sem(sem, waiter)\<close>; the caller holds \<open>sem->wait_lock\<close>.\<close>

definition try_get_writer_sem :: "rwsem_bias \<Rightarrow> kstate \<Rightarrow> nat \<Rightarrow> fault + (int \<times> kstate)" where
  "try_get_writer_sem K s waiter =
     (case wait_list s of
        [] \<Rightarrow> Inl Wild_pointer
      | fwaiter # rest \<Rightarrow>
          (case waiters s fwaiter of
             None \<Rightarrow> Inl Wild_pointer
           | Some fr \<Rightarrow>
               if flags fr AND RWSEM_WAITING_FOR_WRITE = 0 then Inr (0, s)
               else try_again_write K (writer_adjustment K fwaiter rest waiter) waiter s))"

subsection \<open>\<open>rwsem_down_failed_common\<close> (lines 154-199)\<close>

text \<open>
  Lines 158-177, up to the release of \<open>wait_lock\<close>. \<open>tsk\<close> is \<open>current\<close> and
  \<open>waiter0\<close> what the unassigned local of \<open>__rwsem_do_wake\<close> will hold if it is
  called. \<open>list_add_tail\<close> puts the waiter behind the last entry.
\<close>

definition down_failed_enqueue ::
    "rwsem_bias \<Rightarrow> nat \<Rightarrow> nat \<Rightarrow> kstate \<Rightarrow> nat \<Rightarrow> long \<Rightarrow> fault + kstate" where
  "down_failed_enqueue K waiter0 tsk s waiter adjustment =
     (let s1 = emit Spin_lock (emit (Set_task_state tsk TASK_UNINTERRUPTIBLE) s)
      in case waiters s1 waiter of
           None \<Rightarrow> Inl Wild_pointer
         | Some r \<Rightarrow>
             (let s2 = emit (Get_task_struct tsk)
                         (s1\<lparr>waiters := (waiters s1)(waiter \<mapsto> r\<lparr>task := Some tsk\<rparr>)\<rparr>);
                  s3 = s2\<lparr>wait_list := wait_list s2 @ [waiter]\<rparr>;
                  cnt = fst (rwsem_atomic_update adjustment s3);
                  s4 = snd (rwsem_atomic_update adjustment s3)
              in if cnt AND RWSEM_ACTIVE_MASK K = 0
                 then (case rwsem_do_wake K waiter0 s4 False of
                         Inl e \<Rightarrow> Inl e
                       | Inr s5 \<Rightarrow> Inr (emit Spin_unlock s5))
                 else Inr (emit Spin_unlock s4)))"

text \<open>
  One pass through the body of the \<open>for (;;)\<close> of lines 180-194. It leaves the loop
  by \<open>break\<close> (line 182), leaves the function by \<open>return\<close> (line 189), or reaches
  \<open>schedule()\<close> (line 192).

  Line 186 tests an identifier \<open>flags\<close> that the function does not declare, and
  line 187 passes \<open>&waiter\<close>, the address of the parameter, where
  \<open>try_get_writer_sem\<close> expects a \<open>struct rwsem_waiter *\<close>. Both are parameters
  here: \<open>flags_val\<close> is the value the identifier has, and \<open>waiter_arg\<close> is the
  address that the callee receives as its waiter. In the file as written that
  address is the one of the parameter \<open>waiter\<close> itself: a slot that holds a
  pointer, not a \<open>struct rwsem_waiter\<close>, and never the address of the queued
  waiter.
\<close>

datatype pass = Break kstate | Return kstate | Sleep kstate

definition wait_pass :: "rwsem_bias \<Rightarrow> 32 word \<Rightarrow> nat \<Rightarrow> nat \<Rightarrow> kstate \<Rightarrow> fault + pass" where
  "wait_pass K flags_val waiter_arg waiter s =
     (case waiters s waiter of
        None \<Rightarrow> Inl Wild_pointer
      | Some r \<Rightarrow>
          if task r = None then Inr (Break s)
          else
            (let s1 = emit Spin_lock s
             in if flags_val = RWSEM_WAITING_FOR_WRITE then
                  (case try_get_writer_sem K s1 waiter_arg of
                     Inl e \<Rightarrow> Inl e
                   | Inr (ret, s2) \<Rightarrow>
                       if ret \<noteq> 0 then Inr (Return (emit Spin_unlock s2))
                       else Inr (Sleep (emit Schedule (emit Spin_unlock s2))))
                else Inr (Sleep (emit Schedule (emit Spin_unlock s1)))))"

text \<open>
  The loop and lines 196-198. While the task sleeps in \<open>schedule()\<close> the other
  tasks run: \<open>world\<close> lists, wake-up by wake-up, what they have done to the state
  by the time this task runs again. When the list is used up nobody wakes the
  task any more and the function does not return: the result is \<open>None\<close>.
\<close>

fun wait_for_lock ::
    "rwsem_bias \<Rightarrow> 32 word \<Rightarrow> nat \<Rightarrow> (kstate \<Rightarrow> kstate) list \<Rightarrow> nat \<Rightarrow> nat \<Rightarrow> kstate
      \<Rightarrow> fault + kstate option" where
  "wait_for_lock K flags_val waiter_arg world tsk waiter s =
     (case wait_pass K flags_val waiter_arg waiter s of
        Inl e \<Rightarrow> Inl e
      | Inr (Break s') \<Rightarrow> Inr (Some (emit (Set_task_state tsk TASK_RUNNING) s'))
      | Inr (Return s') \<Rightarrow> Inr (Some s')
      | Inr (Sleep s') \<Rightarrow>
          (case world of
             [] \<Rightarrow> Inr None
           | others # world' \<Rightarrow>
               wait_for_lock K flags_val waiter_arg world' tsk waiter
                 (emit (Set_task_state tsk TASK_UNINTERRUPTIBLE) (others s'))))"

definition rwsem_down_failed_common ::
    "rwsem_bias \<Rightarrow> nat \<Rightarrow> 32 word \<Rightarrow> nat \<Rightarrow> (kstate \<Rightarrow> kstate) list \<Rightarrow> nat \<Rightarrow> kstate \<Rightarrow> nat \<Rightarrow> long
      \<Rightarrow> fault + kstate option" where
  "rwsem_down_failed_common K waiter0 flags_val waiter_arg world tsk s waiter adjustment =
     (case down_failed_enqueue K waiter0 tsk s waiter adjustment of
        Inl e \<Rightarrow> Inl e
      | Inr s1 \<Rightarrow> wait_for_lock K flags_val waiter_arg world tsk waiter s1)"

text \<open>
  \<open>rwsem_down_read_failed\<close> and \<open>rwsem_down_write_failed\<close> (lines 204-227). The
  waiter is a local of the caller; \<open>waiter\<close> is its address. Only its \<open>flags\<close> are
  stored before the call, and \<open>task\<close> is written at line 165 before it is read.
\<close>

definition rwsem_down_read_failed ::
    "rwsem_bias \<Rightarrow> nat \<Rightarrow> 32 word \<Rightarrow> nat \<Rightarrow> (kstate \<Rightarrow> kstate) list \<Rightarrow> nat \<Rightarrow> nat \<Rightarrow> kstate
      \<Rightarrow> fault + kstate option" where
  "rwsem_down_read_failed K waiter0 flags_val waiter_arg world tsk waiter s =
     rwsem_down_failed_common K waiter0 flags_val waiter_arg world tsk
       (s\<lparr>waiters := (waiters s)(waiter \<mapsto> \<lparr>task = None, flags = RWSEM_WAITING_FOR_READ\<rparr>)\<rparr>)
       waiter (RWSEM_WAITING_BIAS K - RWSEM_ACTIVE_BIAS K)"

definition rwsem_down_write_failed ::
    "rwsem_bias \<Rightarrow> nat \<Rightarrow> 32 word \<Rightarrow> nat \<Rightarrow> (kstate \<Rightarrow> kstate) list \<Rightarrow> nat \<Rightarrow> nat \<Rightarrow> kstate
      \<Rightarrow> fault + kstate option" where
  "rwsem_down_write_failed K waiter0 flags_val waiter_arg world tsk waiter s =
     rwsem_down_failed_common K waiter0 flags_val waiter_arg world tsk
       (s\<lparr>waiters := (waiters s)(waiter \<mapsto> \<lparr>task = None, flags = RWSEM_WAITING_FOR_WRITE\<rparr>)\<rparr>)
       waiter (- RWSEM_ACTIVE_BIAS K)"

subsection \<open>\<open>rwsem_wake\<close> and \<open>rwsem_downgrade_wake\<close> (lines 233-266)\<close>

definition rwsem_wake :: "rwsem_bias \<Rightarrow> nat \<Rightarrow> kstate \<Rightarrow> fault + kstate" where
  "rwsem_wake K waiter0 s =
     (let s1 = emit Spin_lock s
      in if wait_list s1 \<noteq> [] then
           (case rwsem_do_wake K waiter0 s1 False of
              Inl e \<Rightarrow> Inl e
            | Inr s2 \<Rightarrow> Inr (emit Spin_unlock s2))
         else Inr (emit Spin_unlock s1))"

definition rwsem_downgrade_wake :: "rwsem_bias \<Rightarrow> nat \<Rightarrow> kstate \<Rightarrow> fault + kstate" where
  "rwsem_downgrade_wake K waiter0 s =
     (let s1 = emit Spin_lock s
      in if wait_list s1 \<noteq> [] then
           (case rwsem_do_wake K waiter0 s1 True of
              Inl e \<Rightarrow> Inl e
            | Inr s2 \<Rightarrow> Inr (emit Spin_unlock s2))
         else Inr (emit Spin_unlock s1))"

subsection \<open>Sample states\<close>

text \<open>
  The values the 32-bit headers give the macros: the active part of the counter
  is its low half (the comment at lines 44-45), one unit per holder, and a
  waiting unit is \<open>-0x10000\<close>.
\<close>

definition bias32 :: rwsem_bias where
  "bias32 = \<lparr>RWSEM_ACTIVE_BIAS = 1, RWSEM_WAITING_BIAS = - 0x10000,
             RWSEM_ACTIVE_MASK = 0xFFFF, RWSEM_ACTIVE_WRITE_BIAS = - 0xFFFF\<rparr>"

text \<open>
  A semaphore whose holder has just left: nobody is active, and the waiters at
  the addresses \<open>100, 101, ...\<close> are queued for the tasks \<open>7, 8, ...\<close> with
  the given flags. The address 200 holds a waiter of task 42 that is on no queue.
\<close>

fun queued :: "nat \<Rightarrow> nat \<Rightarrow> 32 word list \<Rightarrow> (nat \<rightharpoonup> rwsem_waiter)" where
  "queued a t [] = [200 \<mapsto> \<lparr>task = Some 42, flags = RWSEM_WAITING_FOR_WRITE\<rparr>]"
| "queued a t (f # fs) = (queued (Suc a) (Suc t) fs)(a \<mapsto> \<lparr>task = Some t, flags = f\<rparr>)"

fun addresses :: "nat \<Rightarrow> 32 word list \<Rightarrow> nat list" where
  "addresses a [] = []"
| "addresses a (f # fs) = a # addresses (Suc a) fs"

definition released :: "32 word list \<Rightarrow> kstate" where
  "released fs =
     \<lparr>count = of_nat (length fs) * RWSEM_WAITING_BIAS bias32,
      wait_list = addresses 100 fs,
      waiters = queued 100 7 fs,
      cpus = [],
      events = []\<rparr>"

text \<open>
  The sum of the operands of the atomic operations in a list of calls: what the
  caller of those operations has added to the counter.
\<close>

fun operand :: "event \<Rightarrow> long" where
  "operand (Atomic_add d) = d"
| "operand (Atomic_update d) = d"
| "operand e = 0"

definition net_change :: "event list \<Rightarrow> long" where
  "net_change evs = sum_list (map operand evs)"

text \<open>
  No queued waiter has a cleared \<open>task\<close>: a waiter whose \<open>task\<close> is \<open>NULL\<close> is
  off the queue.
\<close>

definition granted_unlinked :: "kstate \<Rightarrow> bool" where
  "granted_unlinked s =
     list_all (\<lambda>w. case waiters s w of None \<Rightarrow> True | Some r \<Rightarrow> task r \<noteq> None)
       (wait_list s)"

text \<open>
  A semaphore that a writer holds while the writer at address 100 is queued
  (the counter is \<open>0xFFFE0001\<close>). Another processor takes one unit off the
  counter just before this one's second atomic operation and adds it again just
  before the third.
\<close>

definition busy :: kstate where
  "busy = (released [RWSEM_WAITING_FOR_WRITE])\<lparr>count := - 0x1FFFF, cpus := [0, - 1, 1]\<rparr>"

text \<open>
  The semaphore \<open>released [RWSEM_WAITING_FOR_WRITE]\<close> after the fast path of a
  reader (task 9) has added its active unit and found the counter negative. The
  reader's waiter is the local at address 300.
\<close>

definition contended :: kstate where
  "contended = (released [RWSEM_WAITING_FOR_WRITE])
                 \<lparr>count := 0xFFFF0001,
                  waiters := (waiters (released [RWSEM_WAITING_FOR_WRITE]))
                               (300 \<mapsto> \<lparr>task = None, flags = RWSEM_WAITING_FOR_READ\<rparr>)\<rparr>"

text \<open>
  The address of the parameter \<open>waiter\<close> in the frame of
  \<open>rwsem_down_failed_common\<close>, which line 187 passes on. No waiter of the sample
  states lives there.
\<close>

definition waiter_param_slot :: nat where
  "waiter_param_slot = 999"

text \<open>
  The run of readers at the head of the queue, as the spec words it: the longest
  prefix of the queue whose waiters all wait for read. A queue is in order when
  no waiter is on it twice and each of its waiters has a task and waits for
  read or for write.
\<close>

definition waits_for_read :: "kstate \<Rightarrow> nat \<Rightarrow> bool" where
  "waits_for_read s w =
     (case waiters s w of None \<Rightarrow> False | Some r \<Rightarrow> flags r = RWSEM_WAITING_FOR_READ)"

definition reader_run :: "kstate \<Rightarrow> nat list" where
  "reader_run s = takeWhile (waits_for_read s) (wait_list s)"

definition queue_ok :: "kstate \<Rightarrow> bool" where
  "queue_ok s =
     (distinct (wait_list s)
      \<and> list_all (\<lambda>w. case waiters s w of
                        None \<Rightarrow> False
                      | Some r \<Rightarrow> task r \<noteq> None
                          \<and> (flags r = RWSEM_WAITING_FOR_READ
                               \<or> flags r = RWSEM_WAITING_FOR_WRITE))
          (wait_list s))"

fun atomic :: "event \<Rightarrow> bool" where
  "atomic (Atomic_add d) = True"
| "atomic (Atomic_update d) = True"
| "atomic e = False"

section \<open>Properties\<close>

subsection \<open>What the primitives leave alone\<close>

lemma interfere_frame:
  "wait_list (interfere s) = wait_list s"
  "waiters (interfere s) = waiters s"
  "events (interfere s) = events s"
  by (simp_all add: interfere_def split: list.split)

lemma emit_frame:
  "wait_list (emit e s) = wait_list s"
  "waiters (emit e s) = waiters s"
  "count (emit e s) = count s"
  "cpus (emit e s) = cpus s"
  "events (emit e s) = events s @ [e]"
  by (simp_all add: emit_def)

lemma atomic_update_frame:
  "wait_list (snd (rwsem_atomic_update d s)) = wait_list s"
  "waiters (snd (rwsem_atomic_update d s)) = waiters s"
  "events (snd (rwsem_atomic_update d s)) = events s @ [Atomic_update d]"
  "count (snd (rwsem_atomic_update d s)) = count (interfere s) + d"
  "fst (rwsem_atomic_update d s) = count (interfere s) + d"
  "cpus (snd (rwsem_atomic_update d s)) = tl (cpus s)"
  by (simp_all add: rwsem_atomic_update_def Let_def emit_frame interfere_frame)
     (simp_all add: interfere_def emit_def split: list.split)

lemma atomic_add_frame:
  "wait_list (rwsem_atomic_add d s) = wait_list s"
  "waiters (rwsem_atomic_add d s) = waiters s"
  "events (rwsem_atomic_add d s) = events s @ [Atomic_add d]"
  "count (rwsem_atomic_add d s) = count (interfere s) + d"
  "cpus (rwsem_atomic_add d s) = tl (cpus s)"
  by (simp_all add: rwsem_atomic_add_def Let_def emit_frame interfere_frame)
     (simp_all add: interfere_def emit_def split: list.split)

subsection \<open>The three ways through \<open>try_again_write\<close>\<close>

lemma try_again_write_free:
  assumes "(fst (rwsem_atomic_update adj s) - adj) AND RWSEM_ACTIVE_MASK K = 0"
  shows "try_again_write K adj w s = steal_granted w (snd (rwsem_atomic_update adj s))"
  using assms by (subst try_again_write.simps) (simp add: Let_def)

lemma try_again_write_fail:
  assumes "(fst (rwsem_atomic_update adj s) - adj) AND RWSEM_ACTIVE_MASK K \<noteq> 0"
      and "fst (rwsem_atomic_update (- adj) (snd (rwsem_atomic_update adj s)))
             AND RWSEM_ACTIVE_MASK K \<noteq> 0"
  shows "try_again_write K adj w s
           = Inr (0, snd (rwsem_atomic_update (- adj) (snd (rwsem_atomic_update adj s))))"
  using assms by (subst try_again_write.simps) (simp add: Let_def)

lemma try_again_write_retry:
  assumes "(fst (rwsem_atomic_update adj s) - adj) AND RWSEM_ACTIVE_MASK K \<noteq> 0"
      and "fst (rwsem_atomic_update (- adj) (snd (rwsem_atomic_update adj s)))
             AND RWSEM_ACTIVE_MASK K = 0"
  shows "try_again_write K adj w s
           = try_again_write K adj w
               (snd (rwsem_atomic_update (- adj) (snd (rwsem_atomic_update adj s))))"
  using assms by (subst try_again_write.simps) (simp add: Let_def)

lemma steal_granted_ret:
  "steal_granted w s = Inr (ret, s') \<Longrightarrow>
     ret = 1 \<and> w \<in> set (wait_list s) \<and> wait_list s' = remove1 w (wait_list s)
       \<and> waiters s' = waiters s"
  by (auto simp: steal_granted_def emit_frame split: option.splits if_splits)

lemma try_again_write_granted:
  "try_again_write K adj w s = Inr (ret, s') \<Longrightarrow> ret \<noteq> 0 \<Longrightarrow>
     ret = 1 \<and> w \<in> set (wait_list s) \<and> wait_list s' = remove1 w (wait_list s)
       \<and> waiters s' = waiters s"
proof (induction K adj w s rule: try_again_write.induct)
  case (1 K adjustment waiter s)
  let ?s1 = "snd (rwsem_atomic_update adjustment s)"
  let ?s2 = "snd (rwsem_atomic_update (- adjustment) ?s1)"
  show ?case
  proof (cases "(fst (rwsem_atomic_update adjustment s) - adjustment) AND RWSEM_ACTIVE_MASK K = 0")
    case True
    with "1.prems" have "steal_granted waiter ?s1 = Inr (ret, s')"
      by (simp add: try_again_write_free)
    from steal_granted_ret [OF this] show ?thesis
      by (simp add: atomic_update_frame)
  next
    case held: False
    show ?thesis
    proof (cases "fst (rwsem_atomic_update (- adjustment) ?s1) AND RWSEM_ACTIVE_MASK K \<noteq> 0")
      case True
      with held "1.prems" show ?thesis
        by (simp add: try_again_write_fail)
    next
      case False
      with held "1.prems" have "try_again_write K adjustment waiter ?s2 = Inr (ret, s')"
        by (simp add: try_again_write_retry)
      from "1.IH" [OF refl refl held False this "1.prems"(2)] show ?thesis
        by (simp add: atomic_update_frame)
    qed
  qed
qed

lemma net_change_append: "net_change (xs @ ys) = net_change xs + net_change ys"
  by (simp add: net_change_def)

text \<open>
  A failed run of the loop: every addition has been taken back, the queue and
  the waiters are untouched, and the counter differs only by what the other
  processors did meanwhile.
\<close>

lemma try_again_write_failed:
  "try_again_write K adj w s = Inr (0, s') \<Longrightarrow>
     wait_list s' = wait_list s \<and> waiters s' = waiters s
     \<and> (\<exists>evs. events s' = events s @ evs \<and> net_change evs = 0)
     \<and> (\<exists>ds. cpus s = ds @ cpus s' \<and> count s' = count s + sum_list ds)"
proof (induction K adj w s rule: try_again_write.induct)
  case (1 K adjustment waiter s)
  let ?s1 = "snd (rwsem_atomic_update adjustment s)"
  let ?s2 = "snd (rwsem_atomic_update (- adjustment) ?s1)"
  have frame: "wait_list ?s2 = wait_list s" "waiters ?s2 = waiters s"
    by (simp_all add: atomic_update_frame)
  have evs: "events ?s2 = events s @ [Atomic_update adjustment, Atomic_update (- adjustment)]"
    by (simp add: atomic_update_frame)
  have nc: "net_change [Atomic_update adjustment, Atomic_update (- adjustment)] = 0"
    by (simp add: net_change_def)
  have cnt: "\<exists>ds. cpus s = ds @ cpus ?s2 \<and> count ?s2 = count s + sum_list ds"
  proof (cases "cpus s")
    case Nil
    then show ?thesis
      by (simp add: rwsem_atomic_update_def interfere_def emit_def Let_def)
  next
    case (Cons d ds)
    show ?thesis
    proof (cases ds)
      case Nil
      with Cons have "cpus s = [d] @ cpus ?s2 \<and> count ?s2 = count s + sum_list [d]"
        by (simp add: rwsem_atomic_update_def interfere_def emit_def Let_def)
      then show ?thesis by blast
    next
      case (Cons e es)
      with \<open>cpus s = d # ds\<close>
      have "cpus s = [d, e] @ cpus ?s2 \<and> count ?s2 = count s + sum_list [d, e]"
        by (simp add: rwsem_atomic_update_def interfere_def emit_def Let_def)
      then show ?thesis by blast
    qed
  qed
  show ?case
  proof (cases "(fst (rwsem_atomic_update adjustment s) - adjustment) AND RWSEM_ACTIVE_MASK K = 0")
    case True
    with "1.prems" have "steal_granted waiter ?s1 = Inr (0, s')"
      by (simp add: try_again_write_free)
    from steal_granted_ret [OF this] show ?thesis
      by simp
  next
    case held: False
    show ?thesis
    proof (cases "fst (rwsem_atomic_update (- adjustment) ?s1) AND RWSEM_ACTIVE_MASK K \<noteq> 0")
      case True
      with held "1.prems" have "s' = ?s2"
        by (simp add: try_again_write_fail)
      with frame evs nc cnt show ?thesis
        by blast
    next
      case False
      with held "1.prems" have "try_again_write K adjustment waiter ?s2 = Inr (0, s')"
        by (simp add: try_again_write_retry)
      from "1.IH" [OF refl refl held False this]
      obtain evs ds where
        a: "wait_list s' = wait_list ?s2" "waiters s' = waiters ?s2" and
        b: "events s' = events ?s2 @ evs" "net_change evs = 0" and
        c: "cpus ?s2 = ds @ cpus s'" "count s' = count ?s2 + sum_list ds"
        by blast
      from cnt obtain ds0 where d: "cpus s = ds0 @ cpus ?s2" "count ?s2 = count s + sum_list ds0"
        by blast
      have "events s' = events s @ ([Atomic_update adjustment, Atomic_update (- adjustment)] @ evs)"
        using b evs by simp
      moreover have "net_change ([Atomic_update adjustment, Atomic_update (- adjustment)] @ evs) = 0"
        using b nc by (simp only: net_change_append) simp
      moreover have "cpus s = (ds0 @ ds) @ cpus s'" "count s' = count s + sum_list (ds0 @ ds)"
        using c d by simp_all
      ultimately show ?thesis
        using a frame by metis
    qed
  qed
qed

subsection \<open>The loop of lines 99-107\<close>

text \<open>
  The loop steps \<open>next\<close> over \<open>loop\<close> entries, clears the \<open>task\<close> of each of them,
  touches no other waiter and does not write the queue.
\<close>

lemma wake_loop_result:
  "wake_loop n q s = Inr (nxt, s') \<Longrightarrow>
     nxt = drop n q \<and> n \<le> length q \<and> wait_list s' = wait_list s
     \<and> (\<forall>w. w \<notin> set (take n q) \<longrightarrow> waiters s' w = waiters s w)
     \<and> (\<forall>w \<in> set (take n q). \<exists>r. waiters s' w = Some r \<and> task r = None)"
proof (induction n q s rule: wake_loop.induct)
  case (1 nxt s)
  then show ?case by simp
next
  case (2 loop s)
  then show ?case by simp
next
  case (3 loop w q s)
  from "3.prems" obtain r tsk where r: "waiters s w = Some r" and t: "task r = Some tsk"
    by (auto split: option.splits)
  let ?s1 = "emit (Put_task_struct tsk) (emit (Wake_up_process tsk)
               ((emit Smp_mb s)\<lparr>waiters := (waiters s)(w \<mapsto> r\<lparr>task := None\<rparr>)\<rparr>))"
  from "3.prems" r t have run: "wake_loop loop q ?s1 = Inr (nxt, s')"
    by simp
  have s1: "wait_list ?s1 = wait_list s" "waiters ?s1 = (waiters s)(w \<mapsto> r\<lparr>task := None\<rparr>)"
    by (simp_all add: emit_def)
  from "3.IH" [OF r t run] have
    ih: "nxt = drop loop q" "loop \<le> length q" "wait_list s' = wait_list ?s1"
        "\<forall>v. v \<notin> set (take loop q) \<longrightarrow> waiters s' v = waiters ?s1 v"
        "\<forall>v \<in> set (take loop q). \<exists>r. waiters s' v = Some r \<and> task r = None"
    by blast+
  have "\<forall>v \<in> set (take (Suc loop) (w # q)). \<exists>r. waiters s' v = Some r \<and> task r = None"
  proof
    fix v assume v: "v \<in> set (take (Suc loop) (w # q))"
    show "\<exists>r. waiters s' v = Some r \<and> task r = None"
    proof (cases "v \<in> set (take loop q)")
      case True
      with ih(5) show ?thesis by blast
    next
      case False
      with v have "v = w" by simp
      with False ih(4) s1 show ?thesis by simp
    qed
  qed
  moreover have "\<forall>v. v \<notin> set (take (Suc loop) (w # q)) \<longrightarrow> waiters s' v = waiters s v"
    using ih(4) s1 by simp
  ultimately show ?case
    using ih(1,2,3) s1 by simp
qed

subsection \<open>The wake engine\<close>

text \<open>
  A call that is not a downgrade does one thing: it wakes the task of the waiter
  that the unassigned local points at. The queue plays no part.
\<close>

lemma do_wake_not_downgrading:
  assumes "rwsem_do_wake K waiter0 s False = Inr s'"
  shows "\<exists>r t. waiters s waiter0 = Some r \<and> task r = Some t \<and> s' = emit (Wake_up_process t) s"
  using assms by (auto simp: rwsem_do_wake_def split: option.splits)

text \<open>On a queue in order the scan counts the readers up to the first writer.\<close>

lemma readers_only_scan_counts:
  assumes "\<forall>w \<in> set rest. \<exists>r. ws w = Some r
             \<and> (flags r = RWSEM_WAITING_FOR_READ \<or> flags r = RWSEM_WAITING_FOR_WRITE)"
  shows "readers_only_scan ws rest k
           = Inr (k + 1 + length (takeWhile
                (\<lambda>w. case ws w of None \<Rightarrow> False | Some r \<Rightarrow> flags r = RWSEM_WAITING_FOR_READ)
                rest))"
  using assms
proof (induction rest arbitrary: k)
  case Nil
  then show ?case by simp
next
  case (Cons w rest)
  then obtain r where r: "ws w = Some r"
    "flags r = RWSEM_WAITING_FOR_READ \<or> flags r = RWSEM_WAITING_FOR_WRITE"
    by auto
  from r(2) show ?case
  proof
    assume "flags r = RWSEM_WAITING_FOR_READ"
    with r Cons show ?thesis
      by (simp add: RWSEM_WAITING_FOR_READ_def)
  next
    assume "flags r = RWSEM_WAITING_FOR_WRITE"
    with r show ?thesis
      by (simp add: RWSEM_WAITING_FOR_READ_def RWSEM_WAITING_FOR_WRITE_def)
  qed
qed

lemma wake_loop_succeeds:
  assumes "n \<le> length q" and "distinct q"
      and "\<forall>w \<in> set (take n q). \<exists>r. waiters s w = Some r \<and> task r \<noteq> None"
  shows "\<exists>s'. wake_loop n q s = Inr (drop n q, s') \<and> count s' = count s
           \<and> (\<exists>evs. events s' = events s @ evs \<and> filter atomic evs = [])"
  using assms
proof (induction n q s rule: wake_loop.induct)
  case (1 nxt s)
  then show ?case by simp
next
  case (2 loop s)
  then show ?case by simp
next
  case (3 loop w q s)
  then obtain r tsk where r: "waiters s w = Some r" "task r = Some tsk"
    by auto
  let ?s1 = "emit (Put_task_struct tsk) (emit (Wake_up_process tsk)
               ((emit Smp_mb s)\<lparr>waiters := (waiters s)(w \<mapsto> r\<lparr>task := None\<rparr>)\<rparr>))"
  have s1: "waiters ?s1 = (waiters s)(w \<mapsto> r\<lparr>task := None\<rparr>)" "count ?s1 = count s"
    "events ?s1 = events s @ [Smp_mb, Wake_up_process tsk, Put_task_struct tsk]"
    by (simp_all add: emit_def)
  from "3.prems" have "w \<notin> set (take loop q)"
    by (auto dest: in_set_takeD)
  with "3.prems" have "\<forall>v \<in> set (take loop q). \<exists>r. waiters ?s1 v = Some r \<and> task r \<noteq> None"
    by (auto simp: s1)
  with "3.IH" [OF r] "3.prems" obtain s' evs where
    "wake_loop loop q ?s1 = Inr (drop loop q, s')" "count s' = count ?s1"
    "events s' = events ?s1 @ evs" "filter atomic evs = []"
    by auto
  then have "wake_loop (Suc loop) (w # q) s = Inr (drop (Suc loop) (w # q), s')
      \<and> count s' = count s
      \<and> events s' = events s @ ([Smp_mb, Wake_up_process tsk, Put_task_struct tsk] @ evs)
      \<and> filter atomic ([Smp_mb, Wake_up_process tsk, Put_task_struct tsk] @ evs) = []"
    using r s1 by simp
  then show ?case
    by blast
qed

text \<open>
  A downgrade call on a queue in order with a reader at its head: the readers of
  the run are taken off the queue, and the one atomic operation of the call adds
  \<open>n * (RWSEM_ACTIVE_BIAS - RWSEM_WAITING_BIAS)\<close> for the \<open>n\<close> readers of the run.
\<close>

lemma downgrade_grants_reader_run:
  assumes "queue_ok s"
      and "wait_list s = w # rest"
      and "waits_for_read s w"
  shows "\<exists>s' evs. rwsem_do_wake K waiter0 s True = Inr s'
           \<and> wait_list s' = drop (length (reader_run s)) (wait_list s)
           \<and> count s' = count (interfere s)
                + of_nat (length (reader_run s)) * (RWSEM_ACTIVE_BIAS K - RWSEM_WAITING_BIAS K)
           \<and> events s' = events s @ evs
           \<and> filter atomic evs
               = [Atomic_add (of_nat (length (reader_run s))
                                * (RWSEM_ACTIVE_BIAS K - RWSEM_WAITING_BIAS K))]"
proof -
  let ?n = "length (reader_run s)"
  let ?d = "of_nat ?n * (RWSEM_ACTIVE_BIAS K - RWSEM_WAITING_BIAS K) :: long"
  from assms(3) obtain r where r: "waiters s w = Some r" "flags r = RWSEM_WAITING_FOR_READ"
    by (auto simp: waits_for_read_def split: option.splits)
  have valid: "\<forall>v \<in> set (wait_list s). \<exists>r. waiters s v = Some r \<and> task r \<noteq> None
                 \<and> (flags r = RWSEM_WAITING_FOR_READ \<or> flags r = RWSEM_WAITING_FOR_WRITE)"
    using assms(1) by (auto simp: queue_ok_def list_all_iff split: option.splits)
  have dist: "distinct (wait_list s)"
    using assms(1) by (simp add: queue_ok_def)
  have n: "?n = 1 + length (takeWhile (waits_for_read s) rest)"
    using assms(2,3) by (simp add: reader_run_def)
  have "readers_only_scan (waiters s) rest 0
          = Inr (0 + 1 + length (takeWhile
                (\<lambda>w. case waiters s w of
                        None \<Rightarrow> False
                      | Some r \<Rightarrow> flags r = RWSEM_WAITING_FOR_READ) rest))"
    using valid assms(2) by (intro readers_only_scan_counts) auto
  then have scan: "readers_only_scan (waiters s) rest 0 = Inr ?n"
    using n by (simp add: waits_for_read_def [abs_def])
  have le: "?n \<le> length (wait_list s)"
    by (simp add: reader_run_def length_takeWhile_le)
  have "\<forall>v \<in> set (take ?n (wait_list s)).
          \<exists>r. waiters (rwsem_atomic_add ?d s) v = Some r \<and> task r \<noteq> None"
    using valid by (simp add: atomic_add_frame) (meson in_set_takeD)
  from wake_loop_succeeds [OF le dist this]
  obtain s2 evs where loop: "wake_loop ?n (wait_list s) (rwsem_atomic_add ?d s)
                               = Inr (drop ?n (wait_list s), s2)"
    and c: "count s2 = count (interfere s) + ?d"
    and e: "events s2 = events s @ ([Atomic_add ?d] @ evs)" "filter atomic evs = []"
    by (auto simp: atomic_add_frame)
  have "rwsem_do_wake K waiter0 s True = Inr (s2\<lparr>wait_list := drop ?n (wait_list s)\<rparr>)"
    using assms(2) r scan loop
    by (simp add: rwsem_do_wake_def readers_only_def readers_only_batch_def Let_def
          atomic_add_frame RWSEM_WAITING_FOR_READ_def RWSEM_WAITING_FOR_WRITE_def)
  moreover have "filter atomic ([Atomic_add ?d] @ evs) = [Atomic_add ?d]"
    using e(2) by simp
  ultimately show ?thesis
    using c e(1) by (intro exI [of _ "s2\<lparr>wait_list := drop ?n (wait_list s)\<rparr>"]
                       exI [of _ "[Atomic_add ?d] @ evs"]) simp
qed


text \<open>
  C10. A downgrade call whose queue head waits for write returns the state it was
  given: the counter, the queue, every waiter record and the list of calls made
  (no task is woken) are as before.
\<close>

theorem do_wake_downgrade_writer_head_frame:
  assumes "wait_list s = w # rest"
      and "waiters s w = Some r"
      and "flags r AND RWSEM_WAITING_FOR_WRITE \<noteq> 0"
  shows "rwsem_do_wake K waiter0 s True = Inr s"
  using assms by (simp add: rwsem_do_wake_def)

theorem do_wake_downgrade_writer_head_frame_witness:
  "rwsem_do_wake bias32 0 (released [RWSEM_WAITING_FOR_WRITE, RWSEM_WAITING_FOR_READ]) True
     = Inr (released [RWSEM_WAITING_FOR_WRITE, RWSEM_WAITING_FOR_READ])"
  using do_wake_downgrade_writer_head_frame
    [of "released [RWSEM_WAITING_FOR_WRITE, RWSEM_WAITING_FOR_READ]" 100 "[101]"
        "\<lparr>task = Some 7, flags = RWSEM_WAITING_FOR_WRITE\<rparr>" bias32 0]
  by (simp add: released_def RWSEM_WAITING_FOR_WRITE_def)

text \<open>
  C1. A call that is not a downgrade, on a queue whose only entry (address 100)
  waits for write on behalf of task 7. The function does not read the queue head:
  it wakes the task of whatever waiter its unassigned local points at (task 42
  when that is address 200), or follows a pointer to no waiter at all (address
  0). Task 7 is not woken. The counter and the queue are as before.
\<close>

theorem do_wake_writer_head_unassigned_waiter:
  "rwsem_do_wake bias32 200 (released [RWSEM_WAITING_FOR_WRITE]) False
     = Inr (emit (Wake_up_process 42) (released [RWSEM_WAITING_FOR_WRITE]))
   \<and> rwsem_do_wake bias32 0 (released [RWSEM_WAITING_FOR_WRITE]) False = Inl Wild_pointer
   \<and> wait_list (released [RWSEM_WAITING_FOR_WRITE]) = [100]
   \<and> waiters (released [RWSEM_WAITING_FOR_WRITE]) 100
       = Some \<lparr>task = Some 7, flags = RWSEM_WAITING_FOR_WRITE\<rparr>"
  by (simp add: rwsem_do_wake_def released_def)

text \<open>
  C3. A call that is not a downgrade, on a queue whose only entry (address 100)
  waits for read on behalf of task 7. Lines 59-64 are taken whatever the head
  waits for: the function wakes the task of the waiter its unassigned local
  points at and returns. No reader is counted, nothing is added to the counter,
  the reader stays queued with its task set and task 7 is not woken.
\<close>

theorem do_wake_reader_head_not_downgrading:
  "rwsem_do_wake bias32 200 (released [RWSEM_WAITING_FOR_READ]) False
     = Inr ((released [RWSEM_WAITING_FOR_READ])\<lparr>events := [Wake_up_process 42]\<rparr>)
   \<and> (released [RWSEM_WAITING_FOR_READ])\<lparr>events := [Wake_up_process 42]\<rparr>
       = \<lparr>count = RWSEM_WAITING_BIAS bias32,
          wait_list = [100],
          waiters = [200 \<mapsto> \<lparr>task = Some 42, flags = RWSEM_WAITING_FOR_WRITE\<rparr>,
                     100 \<mapsto> \<lparr>task = Some 7, flags = RWSEM_WAITING_FOR_READ\<rparr>],
          cpus = [],
          events = [Wake_up_process 42]\<rparr>"
  by (simp add: rwsem_do_wake_def released_def emit_def)

text \<open>
  C4, as the claim states it, fails. A downgrade call on the queue \<open>[100, 101]\<close>,
  a reader and then a writer: when the function reaches line 109, the reader at
  address 100 has its \<open>task\<close> cleared and is still the first entry of the queue.
\<close>

theorem batch_clears_task_before_unlinking:
  "\<exists>nxt s'. readers_only_batch bias32 [101]
               (released [RWSEM_WAITING_FOR_READ, RWSEM_WAITING_FOR_WRITE]) True = Inr (nxt, s')
     \<and> waiters s' 100 = Some \<lparr>task = None, flags = RWSEM_WAITING_FOR_READ\<rparr>
     \<and> wait_list s' = [100, 101]"
  by (simp add: readers_only_batch_def released_def RWSEM_WAITING_FOR_READ_def
        RWSEM_WAITING_FOR_WRITE_def rwsem_atomic_add_def interfere_def emit_def Let_def bias32_def)

text \<open>
  C4, amended. When \<open>__rwsem_do_wake\<close> returns, every waiter whose \<open>task\<close> is
  cleared is off the queue, if that was so when it was called and no waiter was
  queued twice; and every waiter it has taken off the queue has its \<open>task\<close>
  cleared. Within the call the \<open>task\<close> fields are cleared first and the queue is
  cut afterwards (the comment at line 48).
\<close>

theorem do_wake_keeps_granted_unlinked:
  assumes "distinct (wait_list s)"
      and "granted_unlinked s"
      and "rwsem_do_wake K waiter0 s downgrading = Inr s'"
  shows "granted_unlinked s' \<and> distinct (wait_list s')
         \<and> (\<forall>w \<in> set (wait_list s). w \<notin> set (wait_list s') \<longrightarrow>
               (\<exists>r. waiters s' w = Some r \<and> task r = None))"
proof (cases "downgrading \<and> (\<exists>w rest r. wait_list s = w # rest \<and> waiters s w = Some r
                \<and> flags r AND RWSEM_WAITING_FOR_WRITE = 0)")
  case False
  with assms(3) have "wait_list s' = wait_list s \<and> waiters s' = waiters s"
    by (auto simp: rwsem_do_wake_def emit_frame split: option.splits list.splits if_splits)
  with assms(1,2) show ?thesis
    by (simp add: granted_unlinked_def)
next
  case True
  then obtain w rest r where q: "wait_list s = w # rest" and r: "waiters s w = Some r"
    and rd: "flags r AND RWSEM_WAITING_FOR_WRITE = 0" and d: downgrading
    by blast
  from assms(3) q r rd d obtain nxt s2 where
    batch: "readers_only_batch K rest s True = Inr (nxt, s2)" and s': "s' = s2\<lparr>wait_list := nxt\<rparr>"
    by (auto simp: rwsem_do_wake_def readers_only_def split: sum.splits)
  from batch obtain n where
    loop: "wake_loop n (wait_list s) (rwsem_atomic_add
             (of_nat n * (RWSEM_ACTIVE_BIAS K - RWSEM_WAITING_BIAS K)) s) = Inr (nxt, s2)"
    by (auto simp: readers_only_batch_def Let_def atomic_add_frame split: sum.splits)
  from wake_loop_result [OF loop] have
    res: "nxt = drop n (wait_list s)" "n \<le> length (wait_list s)"
         "\<forall>v. v \<notin> set (take n (wait_list s)) \<longrightarrow> waiters s2 v = waiters s v"
         "\<forall>v \<in> set (take n (wait_list s)). \<exists>r. waiters s2 v = Some r \<and> task r = None"
    by (simp_all add: atomic_add_frame)
  from assms(1) have "distinct (take n (wait_list s) @ drop n (wait_list s))"
    by simp
  then have disj: "set (take n (wait_list s)) \<inter> set (drop n (wait_list s)) = {}"
    and dd: "distinct (drop n (wait_list s))"
    by (simp_all only: distinct_append)
  have kept: "\<forall>v \<in> set (drop n (wait_list s)). waiters s' v = waiters s v"
    using disj res(3) s' by auto
  have "granted_unlinked s'"
    unfolding granted_unlinked_def list_all_iff
  proof
    fix v assume "v \<in> set (wait_list s')"
    then have v: "v \<in> set (drop n (wait_list s))"
      using s' res(1) by simp
    then have "v \<in> set (wait_list s)"
      by (rule in_set_dropD)
    with assms(2) have "case waiters s v of None \<Rightarrow> True | Some r \<Rightarrow> task r \<noteq> None"
      by (simp add: granted_unlinked_def list_all_iff)
    with kept v show "case waiters s' v of None \<Rightarrow> True | Some r \<Rightarrow> task r \<noteq> None"
      by simp
  qed
  moreover have "distinct (wait_list s')"
    using dd s' res(1) by simp
  moreover have "\<forall>v \<in> set (wait_list s). v \<notin> set (wait_list s') \<longrightarrow>
                   (\<exists>r. waiters s' v = Some r \<and> task r = None)"
  proof (intro ballI impI)
    fix v assume "v \<in> set (wait_list s)" and "v \<notin> set (wait_list s')"
    then have "v \<in> set (take n (wait_list s) @ drop n (wait_list s))"
        "v \<notin> set (drop n (wait_list s))"
      using s' res(1) by simp_all
    then have "v \<in> set (take n (wait_list s))"
      by (simp only: set_append Un_iff) blast
    with res(4) s' show "\<exists>r. waiters s' v = Some r \<and> task r = None"
      by simp
  qed
  ultimately show ?thesis
    by blast
qed

text \<open>
  A downgrade call on two readers followed by a writer: one addition of
  \<open>2 * (RWSEM_ACTIVE_BIAS - RWSEM_WAITING_BIAS)\<close>, both readers granted and
  taken off the queue, the writer left at its head.
\<close>

lemma downgrade_two_readers:
  "rwsem_do_wake bias32 0
     (released [RWSEM_WAITING_FOR_READ, RWSEM_WAITING_FOR_READ, RWSEM_WAITING_FOR_WRITE]) True
   = Inr \<lparr>count = 0xFFFF0002, wait_list = [102],
          waiters = (queued 100 7
                       [RWSEM_WAITING_FOR_READ, RWSEM_WAITING_FOR_READ, RWSEM_WAITING_FOR_WRITE])
                      (100 \<mapsto> \<lparr>task = None, flags = RWSEM_WAITING_FOR_READ\<rparr>,
                       101 \<mapsto> \<lparr>task = None, flags = RWSEM_WAITING_FOR_READ\<rparr>),
          cpus = [],
          events = [Atomic_add 0x20002, Smp_mb, Wake_up_process 7, Put_task_struct 7,
                    Smp_mb, Wake_up_process 8, Put_task_struct 8]\<rparr>"
  by (simp add: rwsem_do_wake_def readers_only_def readers_only_batch_def released_def
        RWSEM_WAITING_FOR_READ_def RWSEM_WAITING_FOR_WRITE_def rwsem_atomic_add_def
        interfere_def emit_def Let_def bias32_def)

theorem do_wake_keeps_granted_unlinked_witness:
  "\<exists>s'. rwsem_do_wake bias32 0
           (released [RWSEM_WAITING_FOR_READ, RWSEM_WAITING_FOR_READ, RWSEM_WAITING_FOR_WRITE]) True
         = Inr s'
      \<and> wait_list s' = [102] \<and> granted_unlinked s'
      \<and> waiters s' 100 = Some \<lparr>task = None, flags = RWSEM_WAITING_FOR_READ\<rparr>
      \<and> waiters s' 101 = Some \<lparr>task = None, flags = RWSEM_WAITING_FOR_READ\<rparr>"
proof -
  let ?s = "released [RWSEM_WAITING_FOR_READ, RWSEM_WAITING_FOR_READ, RWSEM_WAITING_FOR_WRITE]"
  obtain s' where run: "rwsem_do_wake bias32 0 ?s True = Inr s'"
    and q: "wait_list s' = [102]"
    and w: "waiters s' 100 = Some \<lparr>task = None, flags = RWSEM_WAITING_FOR_READ\<rparr>"
           "waiters s' 101 = Some \<lparr>task = None, flags = RWSEM_WAITING_FOR_READ\<rparr>"
    by (simp add: downgrade_two_readers)
  have "distinct (wait_list ?s)" and "granted_unlinked ?s"
    by (simp_all add: released_def granted_unlinked_def)
  from do_wake_keeps_granted_unlinked [OF this run] have "granted_unlinked s'"
    by simp
  with run q w show ?thesis
    by blast
qed

subsection \<open>The writer's attempt to take the lock\<close>

lemma lone_writer_steals:
  "try_get_writer_sem bias32 (released [RWSEM_WAITING_FOR_WRITE]) 100
     = Inr (1, (released [RWSEM_WAITING_FOR_WRITE])
                 \<lparr>count := 0xFFFF0001, wait_list := [],
                  events := [Atomic_update 1, Smp_mb, Put_task_struct 7,
                             Set_task_state 7 TASK_RUNNING]\<rparr>)"
  by (simp add: try_get_writer_sem_def released_def RWSEM_WAITING_FOR_WRITE_def
        writer_adjustment_def try_again_write_free rwsem_atomic_update_def interfere_def
        bias32_def emit_def steal_granted_def)

text \<open>
  C2, as the claim states it, fails. Two writers are queued, address 100 before
  address 101, and nobody holds the lock. The call for the waiter at 101, which
  is not the head, returns 1 and takes it off the queue; the earlier writer at
  100 is still queued.
\<close>

theorem later_writer_steals_ahead:
  "wait_list (released [RWSEM_WAITING_FOR_WRITE, RWSEM_WAITING_FOR_WRITE]) = [100, 101]
   \<and> (\<exists>s'. try_get_writer_sem bias32
              (released [RWSEM_WAITING_FOR_WRITE, RWSEM_WAITING_FOR_WRITE]) 101 = Inr (1, s')
            \<and> wait_list s' = [100])"
  by (simp add: try_get_writer_sem_def released_def RWSEM_WAITING_FOR_WRITE_def
        writer_adjustment_def try_again_write_free rwsem_atomic_update_def interfere_def
        bias32_def emit_def steal_granted_def)

text \<open>
  C2, amended. \<open>try_get_writer_sem\<close> returns 1 only when the head of the queue
  waits for write (line 125) and the waiter passed in is queued; that waiter,
  head or not, is then the one taken off the queue.
\<close>

theorem steal_only_behind_head_writer:
  assumes "try_get_writer_sem K s waiter = Inr (1, s')"
  shows "\<exists>fwaiter rest fr. wait_list s = fwaiter # rest \<and> waiters s fwaiter = Some fr
           \<and> flags fr AND RWSEM_WAITING_FOR_WRITE \<noteq> 0
           \<and> waiter \<in> set (wait_list s) \<and> wait_list s' = remove1 waiter (wait_list s)"
proof -
  from assms obtain fwaiter rest fr where
    q: "wait_list s = fwaiter # rest" and f: "waiters s fwaiter = Some fr"
    by (auto simp: try_get_writer_sem_def split: list.splits option.splits)
  from assms q f have w: "flags fr AND RWSEM_WAITING_FOR_WRITE \<noteq> 0"
    by (auto simp: try_get_writer_sem_def)
  with assms q f
  have "try_again_write K (writer_adjustment K fwaiter rest waiter) waiter s = Inr (1, s')"
    by (simp add: try_get_writer_sem_def)
  from try_again_write_granted [OF this] q f w show ?thesis
    by simp
qed

theorem steal_only_behind_head_writer_witness:
  "\<exists>fwaiter rest fr.
      wait_list (released [RWSEM_WAITING_FOR_WRITE]) = fwaiter # rest
    \<and> waiters (released [RWSEM_WAITING_FOR_WRITE]) fwaiter = Some fr
    \<and> flags fr AND RWSEM_WAITING_FOR_WRITE \<noteq> 0
    \<and> 100 \<in> set (wait_list (released [RWSEM_WAITING_FOR_WRITE]))"
  using steal_only_behind_head_writer [OF lone_writer_steals] by blast

text \<open>
  C9. When the head of the queue waits for write, the function enters its loop
  with the adjustment \<open>RWSEM_ACTIVE_WRITE_BIAS\<close>, less \<open>RWSEM_WAITING_BIAS\<close>
  exactly if the waiter passed in is the one entry of the queue.
\<close>

theorem writer_adjustment_only_entry:
  assumes "wait_list s = fwaiter # rest"
      and "waiters s fwaiter = Some fr"
      and "flags fr AND RWSEM_WAITING_FOR_WRITE \<noteq> 0"
  shows "try_get_writer_sem K s waiter
           = try_again_write K
               (if wait_list s = [waiter]
                then RWSEM_ACTIVE_WRITE_BIAS K - RWSEM_WAITING_BIAS K
                else RWSEM_ACTIVE_WRITE_BIAS K) waiter s"
  using assms by (auto simp: try_get_writer_sem_def writer_adjustment_def Let_def)

theorem writer_adjustment_only_entry_witness:
  "try_get_writer_sem bias32 (released [RWSEM_WAITING_FOR_WRITE]) 100
     = try_again_write bias32 1 100 (released [RWSEM_WAITING_FOR_WRITE])
   \<and> try_get_writer_sem bias32 (released [RWSEM_WAITING_FOR_WRITE, RWSEM_WAITING_FOR_READ]) 100
     = try_again_write bias32 (- 0xFFFF) 100
         (released [RWSEM_WAITING_FOR_WRITE, RWSEM_WAITING_FOR_READ])"
  using writer_adjustment_only_entry
          [of "released [RWSEM_WAITING_FOR_WRITE]" 100 "[]"
              "\<lparr>task = Some 7, flags = RWSEM_WAITING_FOR_WRITE\<rparr>" bias32 100]
        writer_adjustment_only_entry
          [of "released [RWSEM_WAITING_FOR_WRITE, RWSEM_WAITING_FOR_READ]" 100 "[101]"
              "\<lparr>task = Some 7, flags = RWSEM_WAITING_FOR_WRITE\<rparr>" bias32 100]
  by (simp add: released_def RWSEM_WAITING_FOR_WRITE_def bias32_def)

text \<open>
  C5. A call that returns 0 leaves the queue and the waiters as they were; the
  operands of its own atomic operations add up to zero, so the counter differs
  from its value at the call only by what other processors added meanwhile. And
  in the loop, after an addition that found the lock held, the function goes
  round again exactly if the value returned by taking the addition back has a
  zero active part; otherwise it returns 0.
\<close>

theorem failed_steal_rolls_back:
  "(try_get_writer_sem K s waiter = Inr (0, s') \<longrightarrow>
      wait_list s' = wait_list s \<and> waiters s' = waiters s
      \<and> (\<exists>evs. events s' = events s @ evs \<and> net_change evs = 0)
      \<and> (\<exists>ds. cpus s = ds @ cpus s' \<and> count s' = count s + sum_list ds))
   \<and> ((fst (rwsem_atomic_update adj s) - adj) AND RWSEM_ACTIVE_MASK K \<noteq> 0 \<longrightarrow>
        try_again_write K adj waiter s
          = (if fst (rwsem_atomic_update (- adj) (snd (rwsem_atomic_update adj s)))
                 AND RWSEM_ACTIVE_MASK K = 0
             then try_again_write K adj waiter
                    (snd (rwsem_atomic_update (- adj) (snd (rwsem_atomic_update adj s))))
             else Inr (0, snd (rwsem_atomic_update (- adj) (snd (rwsem_atomic_update adj s))))))"
proof (intro conjI impI)
  assume fail: "try_get_writer_sem K s waiter = Inr (0, s')"
  have "wait_list s' = wait_list s \<and> waiters s' = waiters s
      \<and> (\<exists>evs. events s' = events s @ evs \<and> net_change evs = 0)
      \<and> (\<exists>ds. cpus s = ds @ cpus s' \<and> count s' = count s + sum_list ds)"
  proof (cases "s' = s")
    case True
    have "events s = events s @ [] \<and> net_change [] = 0"
      by (simp add: net_change_def)
    moreover have "cpus s = [] @ cpus s \<and> count s = count s + sum_list []"
      by simp
    ultimately show ?thesis
      using True by blast
  next
    case False
    with fail obtain adj' where "try_again_write K adj' waiter s = Inr (0, s')"
      by (auto simp: try_get_writer_sem_def split: list.splits option.splits if_splits)
    then show ?thesis
      by (rule try_again_write_failed)
  qed
  then show "wait_list s' = wait_list s" "waiters s' = waiters s"
    "\<exists>evs. events s' = events s @ evs \<and> net_change evs = 0"
    "\<exists>ds. cpus s = ds @ cpus s' \<and> count s' = count s + sum_list ds"
    by blast+
next
  assume "(fst (rwsem_atomic_update adj s) - adj) AND RWSEM_ACTIVE_MASK K \<noteq> 0"
  then show "try_again_write K adj waiter s
          = (if fst (rwsem_atomic_update (- adj) (snd (rwsem_atomic_update adj s)))
                 AND RWSEM_ACTIVE_MASK K = 0
             then try_again_write K adj waiter
                    (snd (rwsem_atomic_update (- adj) (snd (rwsem_atomic_update adj s))))
             else Inr (0, snd (rwsem_atomic_update (- adj) (snd (rwsem_atomic_update adj s)))))"
    by (simp add: try_again_write_fail try_again_write_retry)
qed

text \<open>
  On \<open>busy\<close> the first addition finds the lock held, the holder is gone when the
  addition is taken back, the second addition finds the lock held again and so
  does its taking back: four atomic operations, then 0.
\<close>

lemma busy_writer_fails:
  "try_get_writer_sem bias32 busy 100
     = Inr (0, busy\<lparr>cpus := [],
                  events := [Atomic_update 1, Atomic_update (- 1),
                             Atomic_update 1, Atomic_update (- 1)]\<rparr>)"
  apply (simp add: try_get_writer_sem_def busy_def released_def RWSEM_WAITING_FOR_WRITE_def
        writer_adjustment_def bias32_def)
  apply (subst try_again_write_retry)
    apply (simp_all add: rwsem_atomic_update_def interfere_def emit_def Let_def)
  apply (subst try_again_write_fail)
    apply (simp_all add: rwsem_atomic_update_def interfere_def emit_def Let_def)
  done

theorem failed_steal_rolls_back_witness:
  "\<exists>s'. try_get_writer_sem bias32 busy 100 = Inr (0, s')
      \<and> wait_list s' = [100]
      \<and> count s' = count busy
      \<and> net_change (events s') = 0
      \<and> try_again_write bias32 1 100 busy
          = try_again_write bias32 1 100
              (snd (rwsem_atomic_update (- 1) (snd (rwsem_atomic_update 1 busy))))"
proof -
  let ?s' = "busy\<lparr>cpus := [],
                  events := [Atomic_update 1, Atomic_update (- 1),
                             Atomic_update 1, Atomic_update (- 1)]\<rparr>"
  have run: "try_get_writer_sem bias32 busy 100 = Inr (0, ?s')"
    by (rule busy_writer_fails)
  have held: "(fst (rwsem_atomic_update 1 busy) - 1) AND RWSEM_ACTIVE_MASK bias32 \<noteq> 0"
    by (simp add: rwsem_atomic_update_def interfere_def emit_def Let_def busy_def
          released_def bias32_def)
  have free: "fst (rwsem_atomic_update (- 1) (snd (rwsem_atomic_update 1 busy)))
                 AND RWSEM_ACTIVE_MASK bias32 = 0"
    by (simp add: rwsem_atomic_update_def interfere_def emit_def Let_def busy_def
          released_def bias32_def)
  from failed_steal_rolls_back [of bias32 busy 100 ?s' 1] run held free
  have "wait_list ?s' = wait_list busy"
    and "try_again_write bias32 1 100 busy
          = try_again_write bias32 1 100
              (snd (rwsem_atomic_update (- 1) (snd (rwsem_atomic_update 1 busy))))"
    by simp_all
  moreover have "wait_list busy = [100]"
    by (simp add: busy_def released_def)
  moreover have "net_change (events ?s') = 0"
    by (simp add: net_change_def)
  ultimately show ?thesis
    using run by (intro exI [of _ ?s']) simp
qed

text \<open>
  C6, as the claim states it, fails. The one queued writer (address 100, task 7)
  calls while nobody holds the lock: the call returns 1 and the queue is empty,
  and the waiter's \<open>task\<close> is still task 7.
\<close>

theorem steal_leaves_task_field:
  "\<exists>s'. try_get_writer_sem bias32 (released [RWSEM_WAITING_FOR_WRITE]) 100 = Inr (1, s')
      \<and> wait_list s' = []
      \<and> waiters s' 100 = Some \<lparr>task = Some 7, flags = RWSEM_WAITING_FOR_WRITE\<rparr>"
  by (subst lone_writer_steals) (simp add: released_def)

text \<open>
  C6, amended. In any round of the loop, if the counter has a zero active part
  when the addition lands, and the waiter passed in is queued and has a task,
  the function returns 1: the waiter is off the queue, the reference to its task
  is dropped and the task's state is \<open>TASK_RUNNING\<close>. No waiter record is
  written: the waiter's \<open>task\<close> field is what it was. The same holds for the call
  as a whole when the head of the queue waits for write.
\<close>

theorem steal_succeeds_when_nobody_active:
  assumes "waiters s waiter = Some r"
      and "task r = Some tsk"
      and "waiter \<in> set (wait_list s)"
      and "count (interfere s) AND RWSEM_ACTIVE_MASK K = 0"
  shows "(\<exists>s'. try_again_write K adj waiter s = Inr (1, s')
           \<and> wait_list s' = remove1 waiter (wait_list s)
           \<and> waiters s' = waiters s
           \<and> count s' = count (interfere s) + adj
           \<and> events s' = events s @ [Atomic_update adj, Smp_mb, Put_task_struct tsk,
                                      Set_task_state tsk TASK_RUNNING])
       \<and> ((\<exists>fwaiter rest fr. wait_list s = fwaiter # rest \<and> waiters s fwaiter = Some fr
              \<and> flags fr AND RWSEM_WAITING_FOR_WRITE \<noteq> 0) \<longrightarrow>
          (\<exists>s'. try_get_writer_sem K s waiter = Inr (1, s')
           \<and> wait_list s' = remove1 waiter (wait_list s)
           \<and> waiters s' = waiters s))"
proof -
  have run: "\<exists>s'. try_again_write K a waiter s = Inr (1, s')
           \<and> wait_list s' = remove1 waiter (wait_list s)
           \<and> waiters s' = waiters s
           \<and> count s' = count (interfere s) + a
           \<and> events s' = events s @ [Atomic_update a, Smp_mb, Put_task_struct tsk,
                                      Set_task_state tsk TASK_RUNNING]" for a
  proof -
    have "(fst (rwsem_atomic_update a s) - a) AND RWSEM_ACTIVE_MASK K = 0"
      using assms(4) by (simp add: atomic_update_frame)
    then have "try_again_write K a waiter s = steal_granted waiter (snd (rwsem_atomic_update a s))"
      by (rule try_again_write_free)
    with assms(1-3) show ?thesis
      by (simp add: steal_granted_def atomic_update_frame emit_frame)
  qed
  have "\<exists>s'. try_get_writer_sem K s waiter = Inr (1, s')
           \<and> wait_list s' = remove1 waiter (wait_list s) \<and> waiters s' = waiters s"
    if "wait_list s = fwaiter # rest" "waiters s fwaiter = Some fr"
       "flags fr AND RWSEM_WAITING_FOR_WRITE \<noteq> 0" for fwaiter rest fr
  proof -
    from that have "try_get_writer_sem K s waiter
        = try_again_write K (writer_adjustment K fwaiter rest waiter) waiter s"
      by (simp add: try_get_writer_sem_def)
    with run [of "writer_adjustment K fwaiter rest waiter"] show ?thesis
      by auto
  qed
  with run [of adj] show ?thesis
    by blast
qed

theorem steal_succeeds_when_nobody_active_witness:
  "\<exists>s'. try_get_writer_sem bias32
           (released [RWSEM_WAITING_FOR_WRITE, RWSEM_WAITING_FOR_READ]) 100 = Inr (1, s')
      \<and> wait_list s' = [101]
      \<and> waiters s' = waiters (released [RWSEM_WAITING_FOR_WRITE, RWSEM_WAITING_FOR_READ])"
  using steal_succeeds_when_nobody_active
          [of "released [RWSEM_WAITING_FOR_WRITE, RWSEM_WAITING_FOR_READ]" 100
              "\<lparr>task = Some 7, flags = RWSEM_WAITING_FOR_WRITE\<rparr>" 7 bias32 0]
  by (simp add: released_def interfere_def bias32_def RWSEM_WAITING_FOR_WRITE_def)

subsection \<open>The blocking path\<close>

text \<open>
  C7. With the waiter record at hand, lines 158-177 come to this: the state \<open>q\<close>
  in which the waiter holds the task and is the last entry of the queue and the
  counter has the adjustment added, reached by the calls \<open>set_task_state\<close>,
  \<open>spin_lock_irq\<close>, \<open>get_task_struct\<close> and the atomic update in that order; then
  \<open>__rwsem_do_wake\<close> with \<open>downgrading\<close> zero exactly if the active part of the new
  count is zero; then, last, \<open>spin_unlock_irq\<close>. \<open>rwsem_down_read_failed\<close> enters
  it with \<open>RWSEM_WAITING_BIAS - RWSEM_ACTIVE_BIAS\<close> and \<open>rwsem_down_write_failed\<close>
  with \<open>-RWSEM_ACTIVE_BIAS\<close>, and both go on to the wait loop.
\<close>

theorem down_failed_enqueue_then_wake:
  assumes "waiters s waiter = Some r"
  shows "down_failed_enqueue K waiter0 tsk s waiter adjustment
           = (let q = (interfere s)
                        \<lparr>count := count (interfere s) + adjustment,
                         wait_list := wait_list s @ [waiter],
                         waiters := (waiters s)(waiter \<mapsto> r\<lparr>task := Some tsk\<rparr>),
                         events := events s @ [Set_task_state tsk TASK_UNINTERRUPTIBLE, Spin_lock,
                                               Get_task_struct tsk, Atomic_update adjustment]\<rparr>
              in if count q AND RWSEM_ACTIVE_MASK K = 0
                 then (case rwsem_do_wake K waiter0 q False of
                         Inl e \<Rightarrow> Inl e
                       | Inr s5 \<Rightarrow> Inr (emit Spin_unlock s5))
                 else Inr (emit Spin_unlock q))
       \<and> rwsem_down_read_failed K waiter0 fl wa world tsk waiter s
           = (case down_failed_enqueue K waiter0 tsk
                     (s\<lparr>waiters := (waiters s)(waiter \<mapsto>
                           \<lparr>task = None, flags = RWSEM_WAITING_FOR_READ\<rparr>)\<rparr>)
                     waiter (RWSEM_WAITING_BIAS K - RWSEM_ACTIVE_BIAS K) of
                Inl e \<Rightarrow> Inl e
              | Inr s1 \<Rightarrow> wait_for_lock K fl wa world tsk waiter s1)
       \<and> rwsem_down_write_failed K waiter0 fl wa world tsk waiter s
           = (case down_failed_enqueue K waiter0 tsk
                     (s\<lparr>waiters := (waiters s)(waiter \<mapsto>
                           \<lparr>task = None, flags = RWSEM_WAITING_FOR_WRITE\<rparr>)\<rparr>)
                     waiter (- RWSEM_ACTIVE_BIAS K) of
                Inl e \<Rightarrow> Inl e
              | Inr s1 \<Rightarrow> wait_for_lock K fl wa world tsk waiter s1)"
proof -
  let ?s3 = "(emit (Get_task_struct tsk)
                ((emit Spin_lock (emit (Set_task_state tsk TASK_UNINTERRUPTIBLE) s))
                   \<lparr>waiters := (waiters s)(waiter \<mapsto> r\<lparr>task := Some tsk\<rparr>)\<rparr>))
                \<lparr>wait_list := wait_list s @ [waiter]\<rparr>"
  let ?q = "(interfere s)
              \<lparr>count := count (interfere s) + adjustment,
               wait_list := wait_list s @ [waiter],
               waiters := (waiters s)(waiter \<mapsto> r\<lparr>task := Some tsk\<rparr>),
               events := events s @ [Set_task_state tsk TASK_UNINTERRUPTIBLE, Spin_lock,
                                     Get_task_struct tsk, Atomic_update adjustment]\<rparr>"
  have q: "snd (rwsem_atomic_update adjustment ?s3) = ?q"
    by (simp add: rwsem_atomic_update_def interfere_def emit_def Let_def split: list.split)
  have c: "fst (rwsem_atomic_update adjustment ?s3) = count ?q"
    by (simp add: rwsem_atomic_update_def interfere_def emit_def Let_def split: list.split)
  have "down_failed_enqueue K waiter0 tsk s waiter adjustment
          = (if fst (rwsem_atomic_update adjustment ?s3) AND RWSEM_ACTIVE_MASK K = 0
             then (case rwsem_do_wake K waiter0 (snd (rwsem_atomic_update adjustment ?s3)) False of
                     Inl e \<Rightarrow> Inl e
                   | Inr s5 \<Rightarrow> Inr (emit Spin_unlock s5))
             else Inr (emit Spin_unlock (snd (rwsem_atomic_update adjustment ?s3))))"
    using assms by (simp add: down_failed_enqueue_def Let_def emit_frame)
  then have "down_failed_enqueue K waiter0 tsk s waiter adjustment
          = (if count ?q AND RWSEM_ACTIVE_MASK K = 0
             then (case rwsem_do_wake K waiter0 ?q False of
                     Inl e \<Rightarrow> Inl e
                   | Inr s5 \<Rightarrow> Inr (emit Spin_unlock s5))
             else Inr (emit Spin_unlock ?q))"
    by (simp only: q c)
  then show ?thesis
    by (simp only: Let_def rwsem_down_read_failed_def rwsem_down_write_failed_def
          rwsem_down_failed_common_def simp_thms)
qed

text \<open>
  The reader of \<open>contended\<close> queues behind the writer; its adjustment leaves the
  active part zero, so the wake engine is called before the lock is released.
\<close>

theorem down_failed_enqueue_then_wake_witness:
  "down_failed_enqueue bias32 200 9 contended 300
       (RWSEM_WAITING_BIAS bias32 - RWSEM_ACTIVE_BIAS bias32)
   = Inr (contended
            \<lparr>count := 0xFFFE0000, wait_list := [100, 300],
             waiters := (waiters contended)
                          (300 \<mapsto> \<lparr>task = Some 9, flags = RWSEM_WAITING_FOR_READ\<rparr>),
             events := [Set_task_state 9 TASK_UNINTERRUPTIBLE, Spin_lock, Get_task_struct 9,
                        Atomic_update (- 0x10001), Wake_up_process 42, Spin_unlock]\<rparr>)"
  using down_failed_enqueue_then_wake
          [of contended 300 "\<lparr>task = None, flags = RWSEM_WAITING_FOR_READ\<rparr>" bias32 200 9
              "RWSEM_WAITING_BIAS bias32 - RWSEM_ACTIVE_BIAS bias32"]
  by (simp add: contended_def released_def interfere_def bias32_def rwsem_do_wake_def emit_def
        Let_def)

text \<open>
  C8. The one queued writer (address 100, task 7) is in the wait loop while
  nobody holds the lock; \<open>flags\<close> is taken to be its own
  \<open>RWSEM_WAITING_FOR_WRITE\<close>. The claim has the loop end here, by the success
  of \<open>try_get_writer_sem\<close> for this waiter: called with the waiter itself, the
  function does return 1, with the waiter off the queue. But line 187 passes
  \<open>&waiter\<close>. The callee finds the head waiting for write and the counter
  free, and then follows the address of the parameter as if it were the waiter
  (line 137): the pass ends in a fault, with the lock still held, and so does
  the loop. It neither returns nor releases the lock and sleeps. The same
  happens to a whole call of \<open>rwsem_down_write_failed\<close> by task 7 (its waiter
  the local at address 300) on an empty queue, when the holder that made the
  fast path fail has left and the counter holds only the caller's own active
  write bias.
\<close>

theorem wait_loop_passes_address_of_parameter:
  "wait_list (released [RWSEM_WAITING_FOR_WRITE]) = [100]
   \<and> waiters (released [RWSEM_WAITING_FOR_WRITE]) 100
       = Some \<lparr>task = Some 7, flags = RWSEM_WAITING_FOR_WRITE\<rparr>
   \<and> waiters (released [RWSEM_WAITING_FOR_WRITE]) waiter_param_slot = None
   \<and> (\<exists>s'. try_get_writer_sem bias32 (emit Spin_lock (released [RWSEM_WAITING_FOR_WRITE])) 100
              = Inr (1, s') \<and> wait_list s' = [])
   \<and> try_get_writer_sem bias32 (emit Spin_lock (released [RWSEM_WAITING_FOR_WRITE]))
         waiter_param_slot = Inl Wild_pointer
   \<and> wait_pass bias32 RWSEM_WAITING_FOR_WRITE waiter_param_slot 100
         (released [RWSEM_WAITING_FOR_WRITE]) = Inl Wild_pointer
   \<and> wait_for_lock bias32 RWSEM_WAITING_FOR_WRITE waiter_param_slot [] 7 100
         (released [RWSEM_WAITING_FOR_WRITE]) = Inl Wild_pointer
   \<and> rwsem_down_write_failed bias32 200 RWSEM_WAITING_FOR_WRITE waiter_param_slot [] 7 300
         ((released [])\<lparr>count := - 0xFFFF\<rparr>) = Inl Wild_pointer"
proof -
  let ?w = "released [RWSEM_WAITING_FOR_WRITE]"
  have own: "\<exists>s'. try_get_writer_sem bias32 (emit Spin_lock ?w) 100 = Inr (1, s')
                  \<and> wait_list s' = []"
    by (simp add: try_get_writer_sem_def released_def RWSEM_WAITING_FOR_WRITE_def
          writer_adjustment_def try_again_write_free rwsem_atomic_update_def interfere_def
          bias32_def emit_def steal_granted_def)
  have slot: "try_get_writer_sem bias32 (emit Spin_lock ?w) waiter_param_slot = Inl Wild_pointer"
    by (simp add: try_get_writer_sem_def released_def RWSEM_WAITING_FOR_WRITE_def
          writer_adjustment_def try_again_write_free rwsem_atomic_update_def interfere_def
          bias32_def emit_def steal_granted_def waiter_param_slot_def)
  have pass: "wait_pass bias32 RWSEM_WAITING_FOR_WRITE waiter_param_slot 100 ?w = Inl Wild_pointer"
    using slot by (simp add: wait_pass_def Let_def) (simp add: released_def)
  have loop: "wait_for_lock bias32 RWSEM_WAITING_FOR_WRITE waiter_param_slot [] 7 100 ?w
                = Inl Wild_pointer"
    using pass by simp
  have whole: "rwsem_down_write_failed bias32 200 RWSEM_WAITING_FOR_WRITE waiter_param_slot [] 7 300
                 ((released [])\<lparr>count := - 0xFFFF\<rparr>) = Inl Wild_pointer"
    by (simp add: rwsem_down_write_failed_def rwsem_down_failed_common_def
          down_failed_enqueue_def wait_pass_def try_get_writer_sem_def released_def
          RWSEM_WAITING_FOR_WRITE_def writer_adjustment_def try_again_write_free
          rwsem_atomic_update_def interfere_def bias32_def emit_def steal_granted_def
          rwsem_do_wake_def waiter_param_slot_def Let_def)
  have "wait_list ?w = [100]"
    and "waiters ?w 100 = Some \<lparr>task = Some 7, flags = RWSEM_WAITING_FOR_WRITE\<rparr>"
    and "waiters ?w waiter_param_slot = None"
    by (simp_all add: released_def waiter_param_slot_def)
  with own slot pass loop whole show ?thesis
    by blast
qed

end
